theory Spec2Isabelle
  imports Complex_Main "HOL-Library.Log_Nat"
begin

section \<open>Strings and characters\<close>

text \<open>
  A JavaScript string is a sequence of UTF-16 code units and \<open>length\<close> counts code
  units. The model uses \<^typ>\<open>string\<close>, reading each \<^typ>\<open>char\<close> as the code unit with
  the same number, so it covers exactly the strings whose code units are below 256
  (ASCII and the Latin-1 supplement); on these, \<^const>\<open>length\<close> is the JavaScript length.
\<close>

definition code :: "char \<Rightarrow> nat" where
  "code c = of_char c"

definition backslash :: char where
  "backslash = CHR 0x5C"

definition newline :: char where
  "newline = CHR 0x0A"

text \<open>
  The characters of the class \<^verbatim>\<open>\w\<close> of a regular expression without the \<^verbatim>\<open>u\<close>
  flag: \<^verbatim>\<open>A-Z a-z 0-9 _\<close>.
\<close>

definition IsWordCharacter :: "char \<Rightarrow> bool" where
  "IsWordCharacter c =
     (let n = code c in
      (48 \<le> n \<and> n \<le> 57) \<or> (65 \<le> n \<and> n \<le> 90) \<or> n = 95 \<or> (97 \<le> n \<and> n \<le> 122))"

text \<open>
  \<^verbatim>\<open>Canonicalize\<close> of the ECMAScript specification, for a pattern with the \<^verbatim>\<open>i\<close>
  flag and without \<^verbatim>\<open>u\<close>: the code unit is upper-cased when the upper case is one
  code unit, and a code unit from 128 on never becomes ASCII. Below 256 the letters with a
  one-unit upper case are \<^verbatim>\<open>a-z\<close> and the Latin-1 letters 224..254 without 247
  (the division sign). The upper cases of 181 (micro sign) and 255 lie above 255 and are the
  upper case of no other code unit below 256, so leaving the two unchanged gives the same
  equivalence between code units below 256 as the original.
\<close>

definition Canonicalize :: "bool \<Rightarrow> char \<Rightarrow> char" where
  "Canonicalize ignoreCase c =
     (if \<not> ignoreCase then c
      else let n = code c in
        if (97 \<le> n \<and> n \<le> 122) \<or> (224 \<le> n \<and> n \<le> 254 \<and> n \<noteq> 247)
        then char_of (n - 32) else c)"

text \<open>
  \<^verbatim>\<open>String.prototype.trim\<close> strips white space and line terminators from both ends;
  below 256 these are the code units 9 to 13, 32 and 160.
\<close>

definition IsWhiteSpace :: "char \<Rightarrow> bool" where
  "IsWhiteSpace c = (let n = code c in (9 \<le> n \<and> n \<le> 13) \<or> n = 32 \<or> n = 160)"

definition trim :: "string \<Rightarrow> string" where
  "trim s = rev (dropWhile IsWhiteSpace (rev (dropWhile IsWhiteSpace s)))"

text \<open>\<^verbatim>\<open>Array.prototype.join\<close> on an array of strings.\<close>

fun join :: "string \<Rightarrow> string list \<Rightarrow> string" where
  "join sep [] = []"
| "join sep [x] = x"
| "join sep (x # y # ys) = x @ sep @ join sep (y # ys)"

text \<open>The decimal numeral of a natural number, as a template literal prints it.\<close>

fun decimal :: "nat \<Rightarrow> string" where
  "decimal n = (if n < 10 then [char_of (48 + n)] else decimal (n div 10) @ [char_of (48 + n mod 10)])"

declare decimal.simps [simp del]

section \<open>The escaper\<close>

text \<open>
  \<^verbatim>\<open>string.replace(/[.*+?^${}()|[\]\\]/g, '\\$&')\<close>: the pattern is one character class,
  so every match is a single character of the class, and the replacement is a backslash
  followed by the matched character (\<^verbatim>\<open>$&\<close>).
\<close>

definition syntaxCharacters :: "char list" where
  "syntaxCharacters = ''.*+?^${}()|[]'' @ [backslash]"

definition escapeRegExp :: "string \<Rightarrow> string" where
  "escapeRegExp s =
     concat (map (\<lambda>c. if c \<in> set syntaxCharacters then [backslash, c] else [c]) s)"

section \<open>Regular expressions\<close>

text \<open>
  The program builds every pattern from the assertion \<^verbatim>\<open>\b\<close> and literal text. The
  model covers this fragment of the pattern language: a pattern is a sequence of word
  boundary assertions and single characters. \<open>parsePattern\<close> reads a pattern string as
  \<^verbatim>\<open>new RegExp\<close> does: a backslash followed by \<^verbatim>\<open>b\<close> is the assertion, a backslash
  followed by a syntax character is that character, a character that is not a syntax
  character is itself. \<open>None\<close> stands for every other pattern: those outside the
  fragment and those JavaScript rejects with a SyntaxError.
\<close>

datatype atom = WordBoundary | Lit char

fun parsePattern :: "string \<Rightarrow> atom list option" where
  "parsePattern [] = Some []"
| "parsePattern [c] = (if c \<in> set syntaxCharacters then None else Some [Lit c])"
| "parsePattern (c # d # ds) =
     (if c = backslash then
        (if d = CHR ''b'' then map_option ((#) WordBoundary) (parsePattern ds)
         else if d \<in> set syntaxCharacters then map_option ((#) (Lit d)) (parsePattern ds)
         else None)
      else if c \<in> set syntaxCharacters then None
      else map_option ((#) (Lit c)) (parsePattern (d # ds)))"

text \<open>
  The matcher's position in the input is the character before it, if any, and the rest of
  the input from it. \<^verbatim>\<open>\b\<close> holds where exactly one of the two neighbours is a word
  character; the two ends of the input count as not a word character.
\<close>

fun IsWordChar :: "char option \<Rightarrow> bool" where
  "IsWordChar None = False"
| "IsWordChar (Some c) = IsWordCharacter c"

fun current :: "string \<Rightarrow> char option" where
  "current [] = None"
| "current (c # cs) = Some c"

definition atBoundary :: "char option \<Rightarrow> string \<Rightarrow> bool" where
  "atBoundary prev rest = (IsWordChar prev \<noteq> IsWordChar (current rest))"

text \<open>
  \<open>matchAtoms\<close> matches the whole pattern at one position and returns the position after
  the match.
\<close>

fun matchAtoms :: "bool \<Rightarrow> atom list \<Rightarrow> char option \<Rightarrow> string \<Rightarrow> (char option \<times> string) option" where
  "matchAtoms ic [] prev rest = Some (prev, rest)"
| "matchAtoms ic (WordBoundary # as) prev rest =
     (if atBoundary prev rest then matchAtoms ic as prev rest else None)"
| "matchAtoms ic (Lit c # as) prev [] = None"
| "matchAtoms ic (Lit c # as) prev (d # rest) =
     (if Canonicalize ic d = Canonicalize ic c then matchAtoms ic as (Some d) rest else None)"

text \<open>
  \<^verbatim>\<open>RegExp.prototype.test\<close> without the \<^verbatim>\<open>g\<close> flag: the pattern is tried at every
  position from the start of the input, the end included.
\<close>

fun searchFrom :: "bool \<Rightarrow> atom list \<Rightarrow> char option \<Rightarrow> string \<Rightarrow> bool" where
  "searchFrom ic as prev [] = (matchAtoms ic as prev [] \<noteq> None)"
| "searchFrom ic as prev (d # rest) =
     (matchAtoms ic as prev (d # rest) \<noteq> None \<or> searchFrom ic as (Some d) rest)"

definition test :: "bool \<Rightarrow> atom list \<Rightarrow> string \<Rightarrow> bool" where
  "test ic as s = searchFrom ic as None s"

text \<open>
  \<^verbatim>\<open>String.prototype.replace\<close> with a pattern that has the \<^verbatim>\<open>g\<close> flag and a
  replacement text without \<^verbatim>\<open>$\<close>: the leftmost match is replaced and the search
  goes on behind it; after an empty match the next character is copied and the search goes
  on behind that character.
\<close>

function replaceFrom :: "bool \<Rightarrow> atom list \<Rightarrow> string \<Rightarrow> char option \<Rightarrow> string \<Rightarrow> string" where
  "replaceFrom ic as repl prev rest =
     (case matchAtoms ic as prev rest of
        Some (prev', rest') \<Rightarrow>
          if length rest' < length rest then repl @ replaceFrom ic as repl prev' rest'
          else (case rest of
                  [] \<Rightarrow> repl
                | d # ds \<Rightarrow> repl @ d # replaceFrom ic as repl (Some d) ds)
      | None \<Rightarrow>
          (case rest of
             [] \<Rightarrow> []
           | d # ds \<Rightarrow> d # replaceFrom ic as repl (Some d) ds))"
  by pat_completeness auto
termination
  by (relation "measure (\<lambda>(ic, as, repl, prev, rest). length rest)") auto

declare replaceFrom.simps [simp del]

definition replace :: "bool \<Rightarrow> atom list \<Rightarrow> string \<Rightarrow> string \<Rightarrow> string" where
  "replace ic as repl s = replaceFrom ic as repl None s"

text \<open>The pattern \<^verbatim>\<open>\bw\b\<close> for a word \<open>w\<close> without syntax characters.\<close>

definition wholeWord :: "string \<Rightarrow> atom list" where
  "wholeWord w = WordBoundary # map Lit w @ [WordBoundary]"

section \<open>Prompt variation utilities\<close>

text \<open>An example \<^verbatim>\<open>{input, output}\<close>.\<close>

record example =
  input_ex :: string
  output_ex :: string

definition addSystemRole :: "string \<Rightarrow> string \<Rightarrow> string" where
  "addSystemRole prompt role = ''System: '' @ role @ [newline] @ ''User: '' @ prompt"

text \<open>
  An argument that may be absent (\<^verbatim>\<open>undefined\<close> or \<^verbatim>\<open>null\<close>) is an \<open>option\<close>;
  \<^verbatim>\<open>!examples || examples.length === 0\<close> holds for \<open>None\<close> and for \<open>Some []\<close>.
\<close>

definition renderExample :: "example \<times> nat \<Rightarrow> string" where
  "renderExample p = (case p of (ex, i) \<Rightarrow>
     ''Example '' @ decimal (i + 1) @ '':'' @ [newline] @ ''Input: '' @ input_ex ex @ [newline]
       @ ''Output: '' @ output_ex ex)"

definition addFewShot :: "string \<Rightarrow> example list option \<Rightarrow> string" where
  "addFewShot prompt examples =
     (case examples of
        None \<Rightarrow> prompt
      | Some exs \<Rightarrow>
          if length exs = 0 then prompt
          else let fewShot = join [newline, newline]
                               (map renderExample (zip exs [0 ..< length exs]))
               in fewShot @ [newline, newline] @ ''Now, given the user input, respond concisely.''
                    @ [newline] @ ''User: '' @ prompt)"

definition tightenInstructions :: "string \<Rightarrow> string list option \<Rightarrow> string" where
  "tightenInstructions prompt constraints =
     (let c = (case constraints of
                 None \<Rightarrow> []
               | Some cs \<Rightarrow> if length cs \<noteq> 0 then join ''; '' cs @ ''; '' else [])
      in ''Instruction: '' @ c @ ''Be concise and precise.'' @ [newline] @ ''User: '' @ prompt)"

definition paraphrasePrompt :: "string \<Rightarrow> string" where
  "paraphrasePrompt prompt =
     (let p = prompt;
          p = trim (replace True (wholeWord ''please'') [] p);
          p = replace True (wholeWord ''Create'') ''Generate'' p;
          p = replace True (wholeWord ''Describe'') ''Summarize'' p;
          p = (if length p > 120 then take 110 p @ ''...'' else p)
      in p)"

definition injectKeywords :: "string \<Rightarrow> string list option \<Rightarrow> string" where
  "injectKeywords prompt keywords =
     (case keywords of
        None \<Rightarrow> prompt
      | Some ks \<Rightarrow>
          if length ks = 0 then prompt
          else let kwLine = ''Keywords to include: '' @ join '', '' ks @ ''.''
               in prompt @ [newline, newline] @ kwLine)"

section \<open>Numbers\<close>

text \<open>
  A JavaScript number is an IEEE 754 double. The finite doubles are modelled by the
  rationals they denote, and \<open>binary64\<close> rounds a rational to the nearest double, ties to
  the even significand: 53 significant bits, the least exponent of a normal double is
  \<open>-1022\<close>, below it the spacing stays \<open>2 powi -1074\<close>. Overflow to infinity (from
  \<open>2 powi 1024\<close> on) is not modelled; no value of the program exceeds 400.
\<close>

definition roundTiesToEven :: "rat \<Rightarrow> int" where
  "roundTiesToEven r =
     (let f = \<lfloor>r\<rfloor>; d = r - of_int f in
      if d < 1 / 2 then f else if 1 / 2 < d then f + 1 else if even f then f else f + 1)"

text \<open>For \<open>x > 0\<close>, the integer \<open>e\<close> with \<open>2 powi e \<le> x < 2 powi (e + 1)\<close>.\<close>

definition floorLog2 :: "rat \<Rightarrow> int" where
  "floorLog2 x =
     (case quotient_of x of (p, q) \<Rightarrow>
        let d = bitlen p - bitlen q in if 2 powi d \<le> x then d else d - 1)"

definition binary64 :: "rat \<Rightarrow> rat" where
  "binary64 x =
     (if x = 0 then 0
      else let t = max (floorLog2 \<bar>x\<bar>) (- 1022) - 52
           in of_int (roundTiesToEven (x / 2 powi t)) * 2 powi t)"

text \<open>
  \<^verbatim>\<open>Math.round\<close>: the nearest integer, a tie going up. \<^verbatim>\<open>Math.round((a / b) * 100)\<close>
  on two array lengths rounds twice on the way: the quotient and the product.
\<close>

definition Math_round :: "rat \<Rightarrow> int" where
  "Math_round x = \<lfloor>x + 1 / 2\<rfloor>"

definition percentage :: "nat \<Rightarrow> nat \<Rightarrow> int" where
  "percentage a b = Math_round (binary64 (binary64 (of_nat a / of_nat b) * 100))"

section \<open>Heuristic evaluation\<close>

record testCase =
  mustInclude :: "string list option"

record evaluation =
  clarity :: int
  specificity :: int
  keywordCoverage :: int
  testScore :: int
  overall :: int
  foundKeywords :: "string list"

text \<open>
  \<^verbatim>\<open>new RegExp('\\b' + w + '\\b','i').test(prompt)\<close>; \<open>None\<close> when the pattern string
  is not in the modelled fragment.
\<close>

definition wordTest :: "string \<Rightarrow> string \<Rightarrow> bool option" where
  "wordTest w prompt =
     map_option (\<lambda>as. test True as prompt)
       (parsePattern ([backslash, CHR ''b''] @ w @ [backslash, CHR ''b'']))"

text \<open>
  The length of a string is below \<open>2 ^ 53\<close>, so \<open>120 - length\<close>, its half and the
  difference from 100 are computed without rounding; so are the sum of four scores up to
  100 and its quarter.
\<close>

definition clarityOf :: "string \<Rightarrow> int" where
  "clarityOf prompt =
     (let len = length prompt
      in max 10 (min 100 (Math_round (100 - \<bar>120 - of_nat len\<bar> * (1 / 2)))))"

definition specificityWords :: "string list" where
  "specificityWords =
     [''exact'', ''concise'', ''step-by-step'', ''numbered'', ''limit'', ''only'', ''format'',
      ''json'']"

definition specificityCount :: "string \<Rightarrow> nat" where
  "specificityCount prompt =
     foldl (\<lambda>acc w. acc + (if wordTest w prompt = Some True then 1 else 0)) 0 specificityWords"

definition specificityOf :: "string \<Rightarrow> int" where
  "specificityOf prompt = min 100 (int (specificityCount prompt) * 25 + 20)"

definition foundKeywordsOf :: "string \<Rightarrow> string list \<Rightarrow> string list" where
  "foundKeywordsOf prompt keywords =
     filter (\<lambda>k. wordTest (escapeRegExp k) prompt = Some True) keywords"

definition keywordCoverageOf :: "string \<Rightarrow> string list \<Rightarrow> int" where
  "keywordCoverageOf prompt keywords =
     (if length keywords \<noteq> 0
      then percentage (length (foundKeywordsOf prompt keywords)) (length keywords) else 0)"

text \<open>\<^verbatim>\<open>t.mustInclude || []\<close>, for a test case whose field may be missing.\<close>

definition required :: "testCase \<Rightarrow> string list" where
  "required t = (case mustInclude t of None \<Rightarrow> [] | Some r \<Rightarrow> r)"

definition passCount :: "string \<Rightarrow> testCase list \<Rightarrow> nat" where
  "passCount prompt testCases =
     foldl (\<lambda>acc t.
              let ok = list_all (\<lambda>r. wordTest (escapeRegExp r) prompt = Some True) (required t)
              in acc + (if ok then 1 else 0)) 0 testCases"

definition testScoreOf :: "string \<Rightarrow> testCase list \<Rightarrow> int" where
  "testScoreOf prompt testCases =
     (if length testCases \<noteq> 0
      then percentage (passCount prompt testCases) (length testCases) else 0)"

definition evaluatePrompt :: "string \<Rightarrow> string list \<Rightarrow> testCase list \<Rightarrow> evaluation" where
  "evaluatePrompt prompt keywords testCases =
     (let c = clarityOf prompt;
          s = specificityOf prompt;
          k = keywordCoverageOf prompt keywords;
          t = testScoreOf prompt testCases
      in \<lparr>clarity = c, specificity = s, keywordCoverage = k, testScore = t,
          overall = Math_round (of_int (c + s + k + t) / 4),
          foundKeywords = foundKeywordsOf prompt keywords\<rparr>)"

section \<open>API endpoints\<close>

text \<open>
  A field of the request body that may be missing is an \<open>option\<close>; the destructuring
  defaults replace a missing list by the empty one. \<^verbatim>\<open>!basePrompt\<close> holds for a missing
  and for an empty string. \<^verbatim>\<open>res.status(400).json({error: msg})\<close> is \<open>Inl (BadRequest msg)\<close>.
  The identifiers come from the library function \<^verbatim>\<open>uuidv4\<close>; the model takes the
  sequence of its results, in the order of the calls, as a parameter.
\<close>

datatype http_error = BadRequest string

record variation =
  id_v :: string
  type_v :: string
  prompt_v :: string

record scored =
  id_s :: string
  type_s :: string
  prompt_s :: string
  evaluation_s :: evaluation

definition withDefault :: "'a list option \<Rightarrow> 'a list" where
  "withDefault x = (case x of None \<Rightarrow> [] | Some xs \<Rightarrow> xs)"

definition buildVariations ::
  "(nat \<Rightarrow> string) \<Rightarrow> string \<Rightarrow> string list \<Rightarrow> example list \<Rightarrow> string list \<Rightarrow> variation list" where
  "buildVariations uuidv4 basePrompt keywords examples constraints =
     [\<lparr>id_v = uuidv4 0, type_v = ''system-role:expert'',
        prompt_v = addSystemRole basePrompt
                     ''You are an expert assistant with deep domain knowledge.''\<rparr>,
      \<lparr>id_v = uuidv4 1, type_v = ''few-shot'',
        prompt_v = addFewShot basePrompt (Some examples)\<rparr>,
      \<lparr>id_v = uuidv4 2, type_v = ''tight-constraints'',
        prompt_v = tightenInstructions basePrompt (Some constraints)\<rparr>,
      \<lparr>id_v = uuidv4 3, type_v = ''paraphrase'',
        prompt_v = paraphrasePrompt basePrompt\<rparr>,
      \<lparr>id_v = uuidv4 4, type_v = ''keyword-injection'',
        prompt_v = injectKeywords basePrompt (Some keywords)\<rparr>]"

definition generateVariations ::
  "(nat \<Rightarrow> string) \<Rightarrow> string option \<Rightarrow> string list option \<Rightarrow> example list option
     \<Rightarrow> string list option \<Rightarrow> http_error + string \<times> scored list" where
  "generateVariations uuidv4 basePrompt keywords examples constraints =
     (case basePrompt of
        None \<Rightarrow> Inl (BadRequest ''basePrompt required'')
      | Some bp \<Rightarrow>
          if bp = [] then Inl (BadRequest ''basePrompt required'')
          else
            let kws = withDefault keywords;
                variations = buildVariations uuidv4 bp kws (withDefault examples)
                               (withDefault constraints);
                scored = map (\<lambda>v. \<lparr>id_s = id_v v, type_s = type_v v, prompt_s = prompt_v v,
                                      evaluation_s = evaluatePrompt (prompt_v v) kws []\<rparr>)
                           variations
            in Inr (bp, scored))"

definition evaluate ::
  "string option \<Rightarrow> string list option \<Rightarrow> testCase list option
     \<Rightarrow> http_error + string \<times> evaluation" where
  "evaluate prompt keywords testCases =
     (case prompt of
        None \<Rightarrow> Inl (BadRequest ''prompt required'')
      | Some p \<Rightarrow>
          if p = [] then Inl (BadRequest ''prompt required'')
          else Inr (p, evaluatePrompt p (withDefault keywords) (withDefault testCases)))"

section \<open>Whole-word occurrences\<close>

text \<open>
  The character before position \<open>j\<close> of \<open>s\<close>, when the input \<open>s\<close> is preceded by
  \<open>prev\<close>.
\<close>

definition before :: "char option \<Rightarrow> string \<Rightarrow> nat \<Rightarrow> char option" where
  "before prev s j = (if j = 0 then prev else Some (s ! (j - 1)))"

text \<open>
  A whole-word match, as the specification's glossary has it: a substring match bounded by
  non-word characters or string edges. \<open>occursAt w s i\<close>: the text \<open>w\<close> stands at
  position \<open>i\<close> of \<open>s\<close>, up to letter case; \<open>standaloneAt\<close>: and neither neighbour
  is a word character.
\<close>

definition occursAt :: "string \<Rightarrow> string \<Rightarrow> nat \<Rightarrow> bool" where
  "occursAt w s i =
     (i + length w \<le> length s \<and>
      map (Canonicalize True) (take (length w) (drop i s)) = map (Canonicalize True) w)"

definition standaloneAt :: "string \<Rightarrow> string \<Rightarrow> nat \<Rightarrow> bool" where
  "standaloneAt w s i =
     (occursAt w s i \<and>
      (i = 0 \<or> \<not> IsWordCharacter (s ! (i - 1))) \<and>
      (i + length w = length s \<or> \<not> IsWordCharacter (s ! (i + length w))))"

definition wholeWordOccurs :: "string \<Rightarrow> string \<Rightarrow> bool" where
  "wholeWordOccurs w s = list_ex (standaloneAt w s) [0 ..< Suc (length s)]"

text \<open>A term that is not empty and begins and ends with a word character.\<close>

definition wordEdges :: "string \<Rightarrow> bool" where
  "wordEdges w = (w \<noteq> [] \<and> IsWordCharacter (hd w) \<and> IsWordCharacter (last w))"

section \<open>Whole-word replacement\<close>

text \<open>
  The words of a text: \<open>splitWords\<close> cuts it into its maximal runs of word characters
  and its single other characters, in order. \<open>replaceWord w r\<close> puts \<open>r\<close> in the
  place of every piece that is \<open>w\<close> up to letter case and leaves the other pieces as they
  are.
\<close>

function splitWords :: "string \<Rightarrow> string list" where
  "splitWords [] = []"
| "splitWords (c # cs) =
     (if IsWordCharacter c
      then takeWhile IsWordCharacter (c # cs) # splitWords (dropWhile IsWordCharacter (c # cs))
      else [c] # splitWords cs)"
  by pat_completeness auto
termination
proof (relation "measure length")
  show "wf (measure length)" by simp
next
  fix c :: char and cs :: string
  assume "IsWordCharacter c"
  then have "dropWhile IsWordCharacter (c # cs) = dropWhile IsWordCharacter cs" by simp
  moreover have "length (dropWhile IsWordCharacter cs) \<le> length cs"
    by (rule length_dropWhile_le)
  ultimately show "(dropWhile IsWordCharacter (c # cs), c # cs) \<in> measure length"
    by simp
next
  fix c :: char and cs :: string
  show "(cs, c # cs) \<in> measure length" by simp
qed

declare splitWords.simps [simp del]

definition sameWord :: "string \<Rightarrow> string \<Rightarrow> bool" where
  "sameWord a b = (map (Canonicalize True) a = map (Canonicalize True) b)"

definition replaceWord :: "string \<Rightarrow> string \<Rightarrow> string \<Rightarrow> string" where
  "replaceWord w r s = concat (map (\<lambda>tok. if sameWord tok w then r else tok) (splitWords s))"

text \<open>A non-empty text of word characters only.\<close>

definition isWord :: "string \<Rightarrow> bool" where
  "isWord w = (w \<noteq> [] \<and> list_all IsWordCharacter w)"


section \<open>Properties of the regular expressions\<close>


lemma code_less: "code c < 256"
  by (simp add: code_def)

lemma code_char_of: "n < 256 \<Longrightarrow> code (char_of n) = n"
  by (simp add: code_def)

lemma code_Canonicalize:
  "code (Canonicalize True c) =
     (if (97 \<le> code c \<and> code c \<le> 122) \<or> (224 \<le> code c \<and> code c \<le> 254 \<and> code c \<noteq> 247)
      then code c - 32 else code c)"
  using code_less [of c] by (auto simp add: Canonicalize_def Let_def code_char_of)

lemma IsWordCharacter_Canonicalize:
  "IsWordCharacter c \<longleftrightarrow>
     (let n = code (Canonicalize True c) in (48 \<le> n \<and> n \<le> 57) \<or> (65 \<le> n \<and> n \<le> 90) \<or> n = 95)"
  unfolding code_Canonicalize IsWordCharacter_def Let_def by auto

lemma Canonicalize_word:
  "Canonicalize True d = Canonicalize True c \<Longrightarrow> IsWordCharacter d = IsWordCharacter c"
  by (simp add: IsWordCharacter_Canonicalize)

lemma backslash_syntax: "backslash \<in> set syntaxCharacters"
  by (simp add: syntaxCharacters_def)

lemma b_not_syntax: "CHR ''b'' \<notin> set syntaxCharacters"
  by (simp add: syntaxCharacters_def backslash_def)

lemma parsePattern_plain:
  "c \<notin> set syntaxCharacters \<Longrightarrow> parsePattern (c # r) = map_option ((#) (Lit c)) (parsePattern r)"
  using backslash_syntax by (cases r) auto

lemma parsePattern_escaped:
  "c \<in> set syntaxCharacters \<Longrightarrow>
     parsePattern (backslash # c # r) = map_option ((#) (Lit c)) (parsePattern r)"
  using b_not_syntax by auto

lemma parsePattern_boundary:
  "parsePattern (backslash # CHR ''b'' # r) = map_option ((#) WordBoundary) (parsePattern r)"
  by simp

lemma parsePattern_escapeRegExp_append:
  "parsePattern (escapeRegExp s @ r) = map_option ((@) (map Lit s)) (parsePattern r)"
proof (induction s)
  case Nil
  show ?case by (simp add: escapeRegExp_def option.map_ident)
next
  case (Cons c s)
  have step: "escapeRegExp (c # s) = (if c \<in> set syntaxCharacters then [backslash, c] else [c]) @ escapeRegExp s"
    by (simp add: escapeRegExp_def)
  show ?case
  proof (cases "c \<in> set syntaxCharacters")
    case True
    then show ?thesis
      using Cons.IH by (simp add: step parsePattern_escaped option.map_comp comp_def del: parsePattern.simps)
  next
    case False
    then show ?thesis
      using Cons.IH by (simp add: step parsePattern_plain option.map_comp comp_def del: parsePattern.simps)
  qed
qed

lemma parsePattern_escapeRegExp: "parsePattern (escapeRegExp s) = Some (map Lit s)"
  using parsePattern_escapeRegExp_append [of s "[]"] by simp

lemma parsePattern_wholeWord:
  "parsePattern ([backslash, CHR ''b''] @ escapeRegExp w @ [backslash, CHR ''b'']) = Some (wholeWord w)"
proof -
  have "parsePattern [backslash, CHR ''b''] = Some [WordBoundary]"
    by simp
  then have "parsePattern (escapeRegExp w @ [backslash, CHR ''b'']) = Some (map Lit w @ [WordBoundary])"
    by (simp only: parsePattern_escapeRegExp_append option.map)
  then show ?thesis
    by (simp add: wholeWord_def parsePattern_boundary del: parsePattern.simps)
qed

lemma wordTest_escapeRegExp:
  "wordTest (escapeRegExp w) prompt = Some (test True (wholeWord w) prompt)"
  unfolding wordTest_def parsePattern_wholeWord by simp

lemma escapeRegExp_plain: "set w \<inter> set syntaxCharacters = {} \<Longrightarrow> escapeRegExp w = w"
  by (induction w) (auto simp add: escapeRegExp_def)


lemma matchAtoms_literal:
  "matchAtoms ic (map Lit w @ as) prev t =
     (if length w \<le> length t \<and> map (Canonicalize ic) (take (length w) t) = map (Canonicalize ic) w
      then matchAtoms ic as (before prev t (length w)) (drop (length w) t) else None)"
proof (induction w arbitrary: prev t)
  case Nil
  show ?case by (simp add: before_def)
next
  case (Cons c w)
  show ?case
  proof (cases t)
    case Nil
    then show ?thesis by simp
  next
    case (Cons d t')
    have "before (Some d) t' (length w) = before prev (d # t') (Suc (length w))"
      by (cases "length w") (simp_all add: before_def)
    then show ?thesis
      using Cons.IH [of "Some d" t'] Cons by auto
  qed
qed

lemma searchFrom_positions:
  "searchFrom ic as prev t \<longleftrightarrow>
     (\<exists>j \<le> length t. matchAtoms ic as (before prev t j) (drop j t) \<noteq> None)"
proof (induction t arbitrary: prev)
  case Nil
  show ?case by (simp add: before_def)
next
  case (Cons d t)
  have "(\<exists>j \<le> length (d # t). matchAtoms ic as (before prev (d # t) j) (drop j (d # t)) \<noteq> None)
        \<longleftrightarrow> matchAtoms ic as prev (d # t) \<noteq> None
            \<or> (\<exists>j \<le> length t. matchAtoms ic as (before (Some d) t j) (drop j t) \<noteq> None)"
    (is "?L \<longleftrightarrow> ?A \<or> ?R")
  proof
    assume ?L
    then obtain j where j: "j \<le> length (d # t)"
      "matchAtoms ic as (before prev (d # t) j) (drop j (d # t)) \<noteq> None" by blast
    show "?A \<or> ?R"
    proof (cases j)
      case 0
      with j show ?thesis by (simp add: before_def)
    next
      case (Suc k)
      have "before prev (d # t) (Suc k) = before (Some d) t k"
        by (cases k) (simp_all add: before_def)
      with j Suc show ?thesis by auto
    qed
  next
    assume "?A \<or> ?R"
    then show ?L
    proof
      assume ?A
      then have "matchAtoms ic as (before prev (d # t) 0) (drop 0 (d # t)) \<noteq> None"
        by (simp add: before_def)
      then show ?L by blast
    next
      assume ?R
      then obtain k where k: "k \<le> length t" "matchAtoms ic as (before (Some d) t k) (drop k t) \<noteq> None"
        by blast
      have "before prev (d # t) (Suc k) = before (Some d) t k"
        by (cases k) (simp_all add: before_def)
      with k have "Suc k \<le> length (d # t) \<and> matchAtoms ic as (before prev (d # t) (Suc k)) (drop (Suc k) (d # t)) \<noteq> None"
        by simp
      then show ?L by blast
    qed
  qed
  then show ?case
    using Cons.IH [of "Some d"] by simp
qed

lemma matchAtoms_Lit_only:
  "matchAtoms False (map Lit s) prev t =
     (if take (length s) t = s
      then Some (if s = [] then prev else Some (last s), drop (length s) t) else None)"
proof -
  have pre: "take (length s) t = s \<longleftrightarrow> length s \<le> length t \<and> take (length s) t = s"
    by (metis length_take min.absorb_iff2 min.commute)
  have "Canonicalize False = (\<lambda>x. x)"
    by (rule ext) (simp add: Canonicalize_def)
  then have canon: "map (Canonicalize False) = (\<lambda>x. x)"
    by (simp add: map_idI fun_eq_iff)
  have last: "take (length s) t = s \<Longrightarrow> s \<noteq> [] \<Longrightarrow> t ! (length s - 1) = last s"
    by (metis One_nat_def diff_less last_conv_nth length_greater_0_conv less_numeral_extra(1) nth_take)
  show ?thesis
    using matchAtoms_literal [of False s "[]" prev t] pre last
    by (auto simp add: canon before_def)
qed

lemma searchFrom_boundary:
  "searchFrom ic [WordBoundary, WordBoundary] prev t \<longleftrightarrow> IsWordChar prev \<or> list_ex IsWordCharacter t"
  by (induction t arbitrary: prev) (auto simp add: atBoundary_def)

lemma wordTest_empty: "wordTest (escapeRegExp []) prompt = Some (list_ex IsWordCharacter prompt)"
  by (simp add: wordTest_escapeRegExp test_def wholeWord_def searchFrom_boundary)


lemma matchAtoms_wholeWord:
  "matchAtoms ic (wholeWord w) prev t =
     (if atBoundary prev t \<and> length w \<le> length t \<and>
         map (Canonicalize ic) (take (length w) t) = map (Canonicalize ic) w \<and>
         atBoundary (before prev t (length w)) (drop (length w) t)
      then Some (before prev t (length w), drop (length w) t) else None)"
  by (auto simp add: wholeWord_def matchAtoms_literal)

lemma current_drop: "current (drop j s) = (if j < length s then Some (s ! j) else None)"
proof (cases "j < length s")
  case True
  then have "drop j s = s ! j # drop (Suc j) s"
    by (simp add: Cons_nth_drop_Suc)
  with True show ?thesis by simp
next
  case False
  then show ?thesis by simp
qed

lemma standalone_match:
  assumes w: "wordEdges w" and j: "j \<le> length s"
  shows "matchAtoms True (wholeWord w) (before None s j) (drop j s) \<noteq> None \<longleftrightarrow> standaloneAt w s j"
proof (cases "occursAt w s j")
  case False
  then show ?thesis
    using j by (auto simp add: matchAtoms_wholeWord standaloneAt_def occursAt_def)
next
  case True
  from w have ne: "w \<noteq> []" and hw: "IsWordCharacter (hd w)" and lw: "IsWordCharacter (last w)"
    by (simp_all add: wordEdges_def)
  from True have len: "j + length w \<le> length s"
    and eq: "map (Canonicalize True) (take (length w) (drop j s)) = map (Canonicalize True) w"
    by (simp_all add: occursAt_def)
  from ne have pos: "0 < length w" by simp
  have nth: "Canonicalize True (s ! (j + i)) = Canonicalize True (w ! i)" if "i < length w" for i
  proof -
    have "map (Canonicalize True) (take (length w) (drop j s)) ! i = map (Canonicalize True) w ! i"
      by (simp only: eq)
    with that len show ?thesis by simp
  qed
  have first: "IsWordCharacter (s ! j)"
    using nth [of 0] pos hw ne Canonicalize_word [of "s ! j" "hd w"] by (simp add: hd_conv_nth)
  have lastc: "IsWordCharacter (s ! (j + length w - 1))"
    using nth [of "length w - 1"] pos lw ne Canonicalize_word [of "s ! (j + length w - 1)" "last w"]
    by (simp add: last_conv_nth)
  from len pos have jl: "j < length s" by linarith
  from pos have idx: "j + (length w - 1) = j + length w - 1" by linarith
  have b1: "atBoundary (before None s j) (drop j s) \<longleftrightarrow> (j = 0 \<or> \<not> IsWordCharacter (s ! (j - 1)))"
    using first jl by (auto simp add: atBoundary_def current_drop before_def)
  have "before (before None s j) (drop j s) (length w) = Some (s ! (j + length w - 1))"
    using pos len idx by (simp add: before_def)
  then have b2: "atBoundary (before (before None s j) (drop j s) (length w)) (drop (length w) (drop j s))
      \<longleftrightarrow> (j + length w = length s \<or> \<not> IsWordCharacter (s ! (j + length w)))"
    using lastc len by (auto simp add: atBoundary_def current_drop add.commute)
  show ?thesis
    using True len eq b1 b2 by (simp add: matchAtoms_wholeWord standaloneAt_def)
qed

lemma test_wholeWord:
  assumes "wordEdges w"
  shows "test True (wholeWord w) s = wholeWordOccurs w s"
proof -
  have "wholeWordOccurs w s \<longleftrightarrow> (\<exists>j \<le> length s. standaloneAt w s j)"
    unfolding wholeWordOccurs_def list_ex_iff set_upt Bex_def atLeastLessThan_iff less_Suc_eq_le
    by simp
  moreover have "(\<exists>j \<le> length s. matchAtoms True (wholeWord w) (before None s j) (drop j s) \<noteq> None)
      \<longleftrightarrow> (\<exists>j \<le> length s. standaloneAt w s j)"
    using standalone_match [OF assms] by blast
  ultimately show ?thesis
    by (simp only: test_def searchFrom_positions)
qed

lemma wordTest_wholeWord:
  "wordEdges w \<Longrightarrow> wordTest (escapeRegExp w) prompt = Some (wholeWordOccurs w prompt)"
  by (simp add: wordTest_escapeRegExp test_wholeWord)

section \<open>Properties of the arithmetic\<close>

lemma roundTiesToEven_le:
  assumes "r \<le> of_int n"
  shows "roundTiesToEven r \<le> n"
proof -
  have f: "\<lfloor>r\<rfloor> \<le> n"
    using assms by (simp add: floor_le_iff)
  have "\<lfloor>r\<rfloor> + 1 \<le> n" if "1 / 2 \<le> r - of_int \<lfloor>r\<rfloor>"
  proof -
    from that have "of_int \<lfloor>r\<rfloor> < r" by simp
    with assms have "(of_int \<lfloor>r\<rfloor> :: rat) < of_int n" by simp
    then show ?thesis by simp
  qed
  then show ?thesis
    using f by (auto simp add: roundTiesToEven_def Let_def)
qed

lemma roundTiesToEven_nonneg:
  assumes "0 \<le> r"
  shows "0 \<le> roundTiesToEven r"
proof -
  have "0 \<le> \<lfloor>r\<rfloor>" using assms by simp
  then show ?thesis
    by (auto simp add: roundTiesToEven_def Let_def)
qed

lemma floorLog2_lower:
  assumes "0 < x"
  shows "2 powi (floorLog2 x) \<le> x"
proof -
  obtain p q where pq: "quotient_of x = (p, q)" by (cases "quotient_of x")
  then have q: "0 < q" and x: "x = of_int p / of_int q"
    by (simp_all add: quotient_of_denom_pos quotient_of_div)
  from assms q x have p: "0 < p"
    by (simp add: zero_less_divide_iff)
  define d where "d = bitlen p - bitlen q"
  show ?thesis
  proof (cases "2 powi d \<le> x")
    case True
    then show ?thesis by (simp add: floorLog2_def pq d_def Let_def)
  next
    case False
    have bp: "1 \<le> bitlen p" and bq: "1 \<le> bitlen q"
      using p q by (simp_all add: bitlen_alt_def)
    have lo: "(2::int) ^ nat (bitlen p - 1) \<le> p" and hi: "q < 2 ^ nat (bitlen q)"
      using bitlen_bounds [OF p] bitlen_bounds [OF q] by simp_all
    have "(2::rat) powi (bitlen p - 1) \<le> of_int p"
    proof -
      have "(2::rat) powi (bitlen p - 1) = of_int (2 ^ nat (bitlen p - 1))"
        using bp by (simp add: power_int_def)
      also have "\<dots> \<le> of_int p" using lo by (simp only: of_int_le_iff)
      finally show ?thesis .
    qed
    moreover have "(of_int q :: rat) \<le> 2 powi (bitlen q)"
    proof -
      have "(of_int q :: rat) \<le> of_int (2 ^ nat (bitlen q))"
        using hi by (simp only: of_int_le_iff less_imp_le)
      also have "\<dots> = 2 powi (bitlen q)"
        using bq by (simp add: power_int_def)
      finally show ?thesis .
    qed
    moreover have "(0::rat) < of_int q" using q by simp
    moreover have "(0::rat) \<le> of_int p" using p by simp
    ultimately have "(2::rat) powi (bitlen p - 1) / 2 powi (bitlen q) \<le> of_int p / of_int q"
      by (intro frac_le) simp_all
    moreover have "(2::rat) powi (d - 1) = 2 powi (bitlen p - 1) / 2 powi (bitlen q)"
    proof -
      have "(2::rat) powi ((bitlen p - 1) - bitlen q) = 2 powi (bitlen p - 1) / 2 powi (bitlen q)"
        by (rule power_int_diff) simp
      moreover have "d - 1 = (bitlen p - 1) - bitlen q" by (simp add: d_def)
      ultimately show ?thesis by (simp only:)
    qed
    ultimately have "2 powi (d - 1) \<le> x" using x by simp
    with False show ?thesis by (simp add: floorLog2_def pq d_def Let_def)
  qed
qed

lemma binary64_nonneg:
  assumes "0 \<le> x"
  shows "0 \<le> binary64 x"
proof -
  have "0 \<le> roundTiesToEven (x / 2 powi t)" for t
    using assms by (intro roundTiesToEven_nonneg) simp
  then show ?thesis
    by (simp add: binary64_def Let_def)
qed

lemma binary64_le_nat:
  assumes "0 \<le> x" and "x \<le> of_nat c" and "c < 2 ^ 53"
  shows "binary64 x \<le> of_nat c"
proof (cases "x = 0")
  case True
  then show ?thesis by (simp add: binary64_def)
next
  case False
  with assms have pos: "0 < x" by simp
  define e where "e = floorLog2 \<bar>x\<bar>"
  define t where "t = max e (- 1022) - 52"
  have "2 powi e \<le> x"
    using floorLog2_lower [OF pos] pos by (simp add: e_def)
  also have "x < 2 powi 53"
  proof -
    have "(of_nat c :: rat) < of_nat (2 ^ 53)"
      using assms(3) by (simp only: of_nat_less_iff)
    with assms(2) show ?thesis by (simp add: power_int_def)
  qed
  finally have "(2::rat) powi e < 2 powi 53" .
  then have "e < 53"
    by (rule power_int_le_imp_less_exp [rotated]) simp_all
  then have t0: "t \<le> 0" by (simp add: t_def)
  define k where "k = nat (- t)"
  have pk: "(2::rat) powi t = 1 / 2 ^ k"
    using t0 by (auto simp add: k_def power_int_def field_simps)
  have "x / 2 powi t \<le> of_int (int c * 2 ^ k)"
    using assms(2) by (simp add: pk mult_right_mono)
  then have "roundTiesToEven (x / 2 powi t) \<le> int c * 2 ^ k"
    by (rule roundTiesToEven_le)
  then have "(of_int (roundTiesToEven (x / 2 powi t)) :: rat) \<le> of_int (int c * 2 ^ k)"
    by (simp only: of_int_le_iff)
  then have "of_int (roundTiesToEven (x / 2 powi t)) * 2 powi t \<le> (of_int (int c * 2 ^ k) :: rat) * 2 powi t"
    by (intro mult_right_mono) simp_all
  also have "\<dots> = of_nat c"
    by (simp add: pk)
  finally show ?thesis
    using False by (simp add: binary64_def Let_def e_def t_def)
qed

lemma percentage_range:
  assumes "a \<le> b" and "0 < b"
  shows "0 \<le> percentage a b \<and> percentage a b \<le> 100"
proof -
  define q where "q = binary64 (of_nat a / of_nat b)"
  have "(of_nat a :: rat) / of_nat b \<le> of_nat 1"
    using assms by simp
  then have q1: "q \<le> 1"
    unfolding q_def using binary64_le_nat [of "of_nat a / of_nat b" 1] by simp
  have q0: "0 \<le> q"
    unfolding q_def by (intro binary64_nonneg) simp
  define y where "y = binary64 (q * 100)"
  have "q * 100 \<le> of_nat 100" using q1 by simp
  then have y1: "y \<le> 100"
    unfolding y_def using binary64_le_nat [of "q * 100" 100] q0 by simp
  have y0: "0 \<le> y"
    unfolding y_def using q0 by (intro binary64_nonneg) simp
  have "percentage a b = \<lfloor>y + 1 / 2\<rfloor>"
    by (simp add: percentage_def Math_round_def y_def q_def)
  moreover have "0 \<le> \<lfloor>y + 1 / 2\<rfloor>" using y0 by simp
  moreover have "\<lfloor>y + 1 / 2\<rfloor> \<le> 100" using y1 by (simp add: floor_le_iff)
  ultimately show ?thesis by simp
qed

section \<open>Whole-word replacement by the global pattern\<close>

lemma sameWord_length: "sameWord a b \<Longrightarrow> length a = length b"
  unfolding sameWord_def by (rule map_eq_imp_length_eq)

lemma sameWord_word:
  "sameWord a b \<Longrightarrow> list_all IsWordCharacter a = list_all IsWordCharacter b"
proof (induction a arbitrary: b)
  case Nil
  then show ?case by (simp add: sameWord_def)
next
  case (Cons x xs)
  from Cons.prems obtain y ys where b: "b = y # ys"
    and c: "Canonicalize True x = Canonicalize True y" and r: "sameWord xs ys"
    by (cases b) (simp_all add: sameWord_def)
  from c have "IsWordCharacter x = IsWordCharacter y"
    by (rule Canonicalize_word)
  with Cons.IH [OF r] b show ?case by simp
qed

text \<open>No match where the word cannot start.\<close>

lemma no_match_inside:
  assumes "isWord w" and "IsWordChar prev"
  shows "matchAtoms True (wholeWord w) prev s = None"
proof (cases s)
  case Nil
  from assms(1) obtain c cs where "w = c # cs" by (cases w) (auto simp add: isWord_def)
  with Nil show ?thesis by (simp add: wholeWord_def)
next
  case (Cons d ds)
  show ?thesis
  proof (cases "IsWordCharacter d")
    case True
    with assms(2) Cons show ?thesis by (simp add: wholeWord_def atBoundary_def)
  next
    case False
    from assms(1) obtain c cs where w: "w = c # cs" and c: "IsWordCharacter c"
      by (cases w) (auto simp add: isWord_def)
    from False c have "Canonicalize True d \<noteq> Canonicalize True c"
      using Canonicalize_word [of d c] by auto
    with Cons w show ?thesis by (simp add: wholeWord_def)
  qed
qed

lemma no_match_nonword:
  assumes "isWord w" and "\<not> IsWordChar (current s)"
  shows "matchAtoms True (wholeWord w) prev s = None"
proof (cases s)
  case Nil
  from assms(1) obtain c cs where "w = c # cs" by (cases w) (auto simp add: isWord_def)
  with Nil show ?thesis by (simp add: wholeWord_def)
next
  case (Cons d ds)
  from assms(1) obtain c cs where w: "w = c # cs" and c: "IsWordCharacter c"
    by (cases w) (auto simp add: isWord_def)
  from assms(2) Cons c have "Canonicalize True d \<noteq> Canonicalize True c"
    using Canonicalize_word [of d c] by auto
  with Cons w show ?thesis by (simp add: wholeWord_def)
qed

lemma replaceFrom_None:
  "matchAtoms ic as prev s = None \<Longrightarrow>
     replaceFrom ic as repl prev s
       = (case s of [] \<Rightarrow> [] | d # ds \<Rightarrow> d # replaceFrom ic as repl (Some d) ds)"
  by (subst replaceFrom.simps) simp

lemma replaceFrom_Some:
  "matchAtoms ic as prev s = Some (prev', s') \<Longrightarrow> length s' < length s \<Longrightarrow>
     replaceFrom ic as repl prev s = repl @ replaceFrom ic as repl prev' s'"
  by (subst replaceFrom.simps) simp

lemma replaceFrom_inside:
  assumes "isWord w" and "IsWordChar prev"
  shows "replaceFrom True (wholeWord w) r prev s
         = takeWhile IsWordCharacter s
           @ replaceFrom True (wholeWord w) r
               (before prev s (length (takeWhile IsWordCharacter s)))
               (dropWhile IsWordCharacter s)"
  using assms(2)
proof (induction s arbitrary: prev)
  case Nil
  show ?case by (simp add: before_def)
next
  case (Cons d ds)
  show ?case
  proof (cases "IsWordCharacter d")
    case False
    then show ?thesis by (simp add: before_def)
  next
    case True
    have "before (Some d) ds (length (takeWhile IsWordCharacter ds))
          = before prev (d # ds) (Suc (length (takeWhile IsWordCharacter ds)))"
      by (cases "length (takeWhile IsWordCharacter ds)") (simp_all add: before_def)
    then show ?thesis
      using True Cons.IH [of "Some d"] no_match_inside [OF assms(1) Cons.prems, of "d # ds"]
      by (simp add: replaceFrom_None)
  qed
qed


lemma takeWhile_take:
  assumes "list_all P (take n s)" and "n \<le> length s"
    and "drop n s = [] \<or> \<not> P (hd (drop n s))"
  shows "takeWhile P s = take n s \<and> dropWhile P s = drop n s"
proof -
  have all: "\<forall>x \<in> set (take n s). P x"
    using assms(1) by (simp add: list_all_iff)
  have tw: "takeWhile P (drop n s) = []" and dw: "dropWhile P (drop n s) = drop n s"
    using assms(3) by (cases "drop n s"; simp)+
  have "takeWhile P (take n s @ drop n s) = take n s @ takeWhile P (drop n s)"
    using all by (simp only: takeWhile_append2)
  moreover have "dropWhile P (take n s @ drop n s) = dropWhile P (drop n s)"
    using all by (simp only: dropWhile_append2)
  ultimately show ?thesis
    using tw dw by (simp only: append_take_drop_id append_Nil2)
qed

lemma current_hd: "\<not> IsWordChar (current t) \<longleftrightarrow> t = [] \<or> \<not> IsWordCharacter (hd t)"
  by (cases t) simp_all

lemma current_dropWhile: "\<not> IsWordChar (current (dropWhile IsWordCharacter s))"
  using hd_dropWhile [of IsWordCharacter s] by (auto simp add: current_hd)

lemma match_at_word_start:
  assumes w: "isWord w" and prev: "\<not> IsWordChar prev" and d: "IsWordCharacter d"
  shows "matchAtoms True (wholeWord w) prev (d # ds) =
           (if sameWord (takeWhile IsWordCharacter (d # ds)) w
            then Some (Some (last (takeWhile IsWordCharacter (d # ds))),
                       dropWhile IsWordCharacter (d # ds))
            else None)"
proof -
  define s where "s = d # ds"
  define tok where "tok = takeWhile IsWordCharacter s"
  define n where "n = length w"
  from w have n0: "0 < n" and ww: "list_all IsWordCharacter w"
    by (simp_all add: isWord_def n_def)
  have b0: "atBoundary prev s"
    using prev d by (simp add: atBoundary_def s_def)
  have tok_ne: "tok \<noteq> []"
    using d by (simp add: tok_def s_def)
  have tok_take: "tok = take (length tok) s"
    unfolding tok_def by (rule takeWhile_eq_take)
  have tok_word: "list_all IsWordCharacter tok"
    unfolding tok_def list_all_iff using set_takeWhileD by fastforce
  have tok_len: "length tok \<le> length s"
    unfolding tok_def by (rule length_takeWhile_le)
  show ?thesis
  proof (cases "sameWord tok w")
    case True
    then have len: "length tok = n"
      unfolding n_def by (rule sameWord_length)
    with tok_take have tk: "take n s = tok" by simp
    have dr: "drop n s = dropWhile IsWordCharacter s"
      using len by (simp add: tok_def dropWhile_eq_drop)
    have nle: "n \<le> length s" using tok_len len by simp
    have "s ! (n - 1) = tok ! (n - 1)"
      using tk n0 by (metis diff_less nth_take zero_less_one)
    also have "\<dots> = last tok"
      using tok_ne len by (simp add: last_conv_nth)
    finally have bf: "before prev s n = Some (last tok)"
      using n0 by (simp add: before_def)
    have "IsWordCharacter (last tok)"
      using tok_word tok_ne by (simp add: list_all_iff)
    then have b1: "atBoundary (before prev s n) (drop n s)"
      using current_dropWhile [of s] by (simp add: bf dr atBoundary_def)
    have "map (Canonicalize True) (take n s) = map (Canonicalize True) w"
      using True tk by (simp add: sameWord_def)
    then show ?thesis
      using True b0 b1 nle bf dr
      by (simp add: matchAtoms_wholeWord s_def [symmetric] tok_def [symmetric] n_def [symmetric])
  next
    case False
    have "\<not> (n \<le> length s \<and> map (Canonicalize True) (take n s) = map (Canonicalize True) w
             \<and> atBoundary (before prev s n) (drop n s))"
    proof
      assume a: "n \<le> length s \<and> map (Canonicalize True) (take n s) = map (Canonicalize True) w
             \<and> atBoundary (before prev s n) (drop n s)"
      then have sw: "sameWord (take n s) w" by (simp add: sameWord_def)
      then have tw: "list_all IsWordCharacter (take n s)"
        using ww sameWord_word by blast
      have "s ! (n - 1) \<in> set (take n s)"
        using a n0 by (metis diff_less in_set_conv_nth length_take min.absorb2 nth_take zero_less_one)
      then have "IsWordCharacter (s ! (n - 1))"
        using tw by (simp add: list_all_iff)
      then have "IsWordChar (before prev s n)"
        using n0 by (simp add: before_def)
      with a have "\<not> IsWordChar (current (drop n s))"
        by (simp add: atBoundary_def)
      then have "drop n s = [] \<or> \<not> IsWordCharacter (hd (drop n s))"
        by (simp only: current_hd)
      with tw a have "takeWhile IsWordCharacter s = take n s"
        using takeWhile_take [of IsWordCharacter n s] by simp
      with sw False show False by (simp add: tok_def)
    qed
    with False show ?thesis
      by (auto simp add: matchAtoms_wholeWord s_def [symmetric] tok_def [symmetric] n_def [symmetric])
  qed
qed

lemma replaceWord_Nil: "replaceWord w r [] = []"
  by (simp add: replaceWord_def splitWords.simps)

lemma replaceWord_nonword:
  assumes "isWord w" and "\<not> IsWordCharacter c"
  shows "replaceWord w r (c # cs) = c # replaceWord w r cs"
proof -
  have "\<not> sameWord [c] w"
  proof
    assume "sameWord [c] w"
    then have "list_all IsWordCharacter [c] = list_all IsWordCharacter w"
      by (rule sameWord_word)
    with assms show False by (simp add: isWord_def)
  qed
  with assms(2) show ?thesis
    by (simp add: replaceWord_def splitWords.simps)
qed

lemma replaceWord_word:
  assumes "IsWordCharacter c"
  shows "replaceWord w r (c # cs) =
           (if sameWord (takeWhile IsWordCharacter (c # cs)) w then r
            else takeWhile IsWordCharacter (c # cs))
           @ replaceWord w r (dropWhile IsWordCharacter (c # cs))"
  using assms by (simp add: replaceWord_def splitWords.simps)

lemma replaceFrom_replaceWord:
  assumes w: "isWord w"
  shows "\<not> (IsWordChar prev \<and> IsWordChar (current s)) \<Longrightarrow>
           replaceFrom True (wholeWord w) r prev s = replaceWord w r s"
proof (induction s arbitrary: prev rule: splitWords.induct)
  case 1
  have "matchAtoms True (wholeWord w) prev [] = None"
    using w by (intro no_match_nonword) simp_all
  then show ?case
    by (simp add: replaceFrom_None replaceWord_Nil)
next
  case (2 c cs)
  show ?case
  proof (cases "IsWordCharacter c")
    case False
    have "matchAtoms True (wholeWord w) prev (c # cs) = None"
      using w False by (intro no_match_nonword) simp_all
    moreover have "replaceFrom True (wholeWord w) r (Some c) cs = replaceWord w r cs"
      using False by (intro "2.IH"(2)) simp_all
    ultimately show ?thesis
      using w False by (simp add: replaceFrom_None replaceWord_nonword)
  next
    case True
    with "2.prems" have prev: "\<not> IsWordChar prev" by simp
    let ?tok = "takeWhile IsWordCharacter (c # cs)"
    let ?rest = "dropWhile IsWordCharacter (c # cs)"
    have rest: "replaceFrom True (wholeWord w) r p ?rest = replaceWord w r ?rest" for p
      using True current_dropWhile [of "c # cs"] by (intro "2.IH"(1)) simp_all
    show ?thesis
    proof (cases "sameWord ?tok w")
      case same: True
      have "length ?rest < length (c # cs)"
        using True length_dropWhile_le [of IsWordCharacter cs] by simp
      then have "replaceFrom True (wholeWord w) r prev (c # cs)
                 = r @ replaceFrom True (wholeWord w) r (Some (last ?tok)) ?rest"
        using match_at_word_start [OF w prev True, of cs] same
        by (intro replaceFrom_Some) simp_all
      then show ?thesis
        using same True rest by (simp only: replaceWord_word if_True)
    next
      case diff: False
      have "matchAtoms True (wholeWord w) prev (c # cs) = None"
        using match_at_word_start [OF w prev True, of cs] diff by simp
      then have "replaceFrom True (wholeWord w) r prev (c # cs)
                 = c # replaceFrom True (wholeWord w) r (Some c) cs"
        by (simp add: replaceFrom_None)
      also have "\<dots> = c # takeWhile IsWordCharacter cs
                   @ replaceFrom True (wholeWord w) r
                       (before (Some c) cs (length (takeWhile IsWordCharacter cs)))
                       (dropWhile IsWordCharacter cs)"
        using replaceFrom_inside [OF w, of "Some c" r cs] True by simp
      also have "\<dots> = ?tok @ replaceWord w r ?rest"
        using True rest by simp
      finally show ?thesis
        using diff True by (simp only: replaceWord_word if_False)
    qed
  qed
qed

lemma replace_replaceWord: "isWord w \<Longrightarrow> replace True (wholeWord w) r s = replaceWord w r s"
  by (simp add: replace_def replaceFrom_replaceWord)

lemma isWord_words: "isWord ''please'' \<and> isWord ''Create'' \<and> isWord ''Describe''"
  by (simp add: isWord_def IsWordCharacter_def code_def)

text \<open>The whole-word occurrences of a word are the pieces of the text equal to it.\<close>

lemma searchFrom_inside:
  assumes "isWord w" and "IsWordChar prev"
  shows "searchFrom True (wholeWord w) prev s
         = searchFrom True (wholeWord w)
             (before prev s (length (takeWhile IsWordCharacter s)))
             (dropWhile IsWordCharacter s)"
  using assms(2)
proof (induction s arbitrary: prev)
  case Nil
  show ?case by (simp add: before_def)
next
  case (Cons d ds)
  show ?case
  proof (cases "IsWordCharacter d")
    case False
    then show ?thesis by (simp add: before_def)
  next
    case True
    have "before (Some d) ds (length (takeWhile IsWordCharacter ds))
          = before prev (d # ds) (Suc (length (takeWhile IsWordCharacter ds)))"
      by (cases "length (takeWhile IsWordCharacter ds)") (simp_all add: before_def)
    then show ?thesis
      using True Cons.IH [of "Some d"] no_match_inside [OF assms(1) Cons.prems, of "d # ds"]
      by simp
  qed
qed

lemma searchFrom_splitWords:
  assumes w: "isWord w"
  shows "\<not> (IsWordChar prev \<and> IsWordChar (current s)) \<Longrightarrow>
           searchFrom True (wholeWord w) prev s = list_ex (\<lambda>tok. sameWord tok w) (splitWords s)"
proof (induction s arbitrary: prev rule: splitWords.induct)
  case 1
  have "matchAtoms True (wholeWord w) prev [] = None"
    using w by (intro no_match_nonword) simp_all
  then show ?case
    by (simp add: splitWords.simps)
next
  case (2 c cs)
  show ?case
  proof (cases "IsWordCharacter c")
    case False
    have "matchAtoms True (wholeWord w) prev (c # cs) = None"
      using w False by (intro no_match_nonword) simp_all
    moreover have "searchFrom True (wholeWord w) (Some c) cs
                   = list_ex (\<lambda>tok. sameWord tok w) (splitWords cs)"
      using False by (intro "2.IH"(2)) simp_all
    moreover have "\<not> sameWord [c] w"
    proof
      assume "sameWord [c] w"
      then have "list_all IsWordCharacter [c] = list_all IsWordCharacter w"
        by (rule sameWord_word)
      with w False show False by (simp add: isWord_def)
    qed
    ultimately show ?thesis
      using False by (simp add: splitWords.simps)
  next
    case True
    with "2.prems" have prev: "\<not> IsWordChar prev" by simp
    let ?tok = "takeWhile IsWordCharacter (c # cs)"
    let ?rest = "dropWhile IsWordCharacter (c # cs)"
    have rest: "searchFrom True (wholeWord w) p ?rest
                = list_ex (\<lambda>tok. sameWord tok w) (splitWords ?rest)" for p
      using True current_dropWhile [of "c # cs"] by (intro "2.IH"(1)) simp_all
    have split: "splitWords (c # cs) = ?tok # splitWords ?rest"
      using True by (simp add: splitWords.simps)
    have here: "matchAtoms True (wholeWord w) prev (c # cs) \<noteq> None \<longleftrightarrow> sameWord ?tok w"
      using match_at_word_start [OF w prev True, of cs] by simp
    have "searchFrom True (wholeWord w) (Some c) cs
          = searchFrom True (wholeWord w)
              (before (Some c) cs (length (takeWhile IsWordCharacter cs)))
              (dropWhile IsWordCharacter cs)"
      using w by (intro searchFrom_inside) (simp_all add: True)
    also have "\<dots> = list_ex (\<lambda>tok. sameWord tok w) (splitWords ?rest)"
      using True rest by simp
    finally show ?thesis
      using here by (simp add: split)
  qed
qed

lemma isWord_wordEdges: "isWord w \<Longrightarrow> wordEdges w"
  by (cases w) (auto simp add: isWord_def wordEdges_def list_all_iff)

lemma wholeWordOccurs_splitWords:
  assumes "isWord w"
  shows "wholeWordOccurs w s = list_ex (\<lambda>tok. sameWord tok w) (splitWords s)"
  using test_wholeWord [OF isWord_wordEdges [OF assms], of s] searchFrom_splitWords [OF assms, of None s]
  by (simp add: test_def)

text \<open>The three pattern literals of the paraphrase, read as patterns.\<close>

lemma regex_literals:
  "parsePattern ([backslash, CHR ''b''] @ ''please'' @ [backslash, CHR ''b'']) = Some (wholeWord ''please'') \<and>
   parsePattern ([backslash, CHR ''b''] @ ''Create'' @ [backslash, CHR ''b'']) = Some (wholeWord ''Create'') \<and>
   parsePattern ([backslash, CHR ''b''] @ ''Describe'' @ [backslash, CHR ''b'']) = Some (wholeWord ''Describe'')"
  by (simp add: wholeWord_def syntaxCharacters_def backslash_def)

section \<open>Properties of the escaper and of the evaluator\<close>

text \<open>
  C7. For every string \<open>s\<close>, the empty one included, the escaper returns a pattern in
  which every character of \<^verbatim>\<open>. * + ? ^ $ { } ( ) | [ ]\<close> and the backslash is escaped: read as a
  regular expression, the result is the sequence of the characters of \<open>s\<close>, each a
  literal. At every position of every input this pattern matches exactly when the input
  goes on with \<open>s\<close>, and the match is \<open>s\<close> itself; against \<open>s\<close> it matches, from
  the start to the end.
\<close>

theorem escapeRegExp_roundtrip:
  "\<exists>as. parsePattern (escapeRegExp s) = Some as \<and>
     (\<forall>prev t. matchAtoms False as prev t =
        (if take (length s) t = s
         then Some (if s = [] then prev else Some (last s), drop (length s) t) else None)) \<and>
     test False as s"
proof -
  have "matchAtoms False (map Lit s) None s \<noteq> None"
    by (simp add: matchAtoms_Lit_only)
  then have "searchFrom False (map Lit s) None s"
    by (cases s) auto
  then show ?thesis
    by (simp add: parsePattern_escapeRegExp matchAtoms_Lit_only test_def)
qed

theorem escapeRegExp_roundtrip_witness:
  "escapeRegExp ''a.b*c'' = [CHR ''a'', backslash, CHR ''.'', CHR ''b'', backslash, CHR ''*'', CHR ''c''] \<and>
   (\<exists>as. parsePattern (escapeRegExp ''a.b*c'') = Some as \<and>
      matchAtoms False as None ''a.b*c'' = Some (Some CHR ''c'', []) \<and>
      matchAtoms False as None ''axb*c'' = None \<and>
      test False as ''a.b*c'')"
proof -
  have e: "escapeRegExp ''a.b*c'' = [CHR ''a'', backslash, CHR ''.'', CHR ''b'', backslash, CHR ''*'', CHR ''c'']"
    by (simp add: escapeRegExp_def syntaxCharacters_def backslash_def)
  from escapeRegExp_roundtrip [of "''a.b*c''"] obtain as where
    p: "parsePattern (escapeRegExp ''a.b*c'') = Some as" and
    m: "\<And>prev t. matchAtoms False as prev t =
          (if take (length ''a.b*c'') t = ''a.b*c''
           then Some (if ''a.b*c'' = [] then prev else Some (last ''a.b*c''), drop (length ''a.b*c'') t)
           else None)" and
    t: "test False as ''a.b*c''"
    by blast
  have "matchAtoms False as None ''a.b*c'' = Some (Some CHR ''c'', [])"
    by (simp add: m)
  moreover have "matchAtoms False as None ''axb*c'' = None"
    by (simp add: m)
  ultimately show ?thesis
    using e p t by blast
qed

lemma percentage_1_1: "percentage 1 1 = 100"
  by code_simp

lemma percentage_0_1: "percentage 0 1 = 0"
  by code_simp

text \<open>
  C10. The empty keyword is escaped to the empty pattern, its test is the pattern of two
  word-boundary assertions, and it is found exactly in the prompts that have a word
  character: it is then among the found keywords and counts in the coverage, which for
  the keyword list of the empty string alone is 100, and 0 for a prompt without a word
  character.
\<close>

theorem empty_keyword:
  "escapeRegExp [] = [] \<and>
   parsePattern ([backslash, CHR ''b''] @ escapeRegExp [] @ [backslash, CHR ''b''])
     = Some [WordBoundary, WordBoundary] \<and>
   wordTest (escapeRegExp []) prompt = Some (list_ex IsWordCharacter prompt) \<and>
   ([] \<in> set (foundKeywords (evaluatePrompt prompt keywords testCases))
      \<longleftrightarrow> [] \<in> set keywords \<and> list_ex IsWordCharacter prompt) \<and>
   keywordCoverage (evaluatePrompt prompt [[]] testCases)
     = (if list_ex IsWordCharacter prompt then 100 else 0)"
proof -
  have "escapeRegExp [] = []"
    by (simp add: escapeRegExp_def)
  then show ?thesis
    using wordTest_empty [of prompt] percentage_1_1 percentage_0_1
    by (auto simp add: evaluatePrompt_def foundKeywordsOf_def keywordCoverageOf_def Let_def)
qed

theorem empty_keyword_witness:
  "foundKeywords (evaluatePrompt ''a!'' [[], ''b''] []) = [[]] \<and>
   keywordCoverage (evaluatePrompt ''a!'' [[]] []) = 100 \<and>
   keywordCoverage (evaluatePrompt ''?!'' [[]] []) = 0"
proof -
  have a: "list_ex IsWordCharacter ''a!''"
    by (simp add: IsWordCharacter_def code_def)
  have b: "\<not> list_ex IsWordCharacter ''?!''"
    by (simp add: IsWordCharacter_def code_def)
  have f: "foundKeywordsOf ''a!'' [[], ''b''] = [[]]"
    by code_simp
  show ?thesis
    using empty_keyword [of "''a!''" "[[], ''b'']" "[]"] empty_keyword [of "''?!''" "[]" "[]"] a b f
    by (simp add: evaluatePrompt_def Let_def)
qed

text \<open>
  C5, as stated: an occurrence of a term bounded by non-word characters or string edges
  always counts. The keyword \<^verbatim>\<open>c++\<close> stands between two blanks in
  \<^verbatim>\<open>use c++ now\<close> and is not found: behind its last character \<^verbatim>\<open>\b\<close> asks for a
  word character.
\<close>

theorem whole_word_counterexample:
  "standaloneAt ''c++'' ''use c++ now'' 4 \<and>
   wordTest (escapeRegExp ''c++'') ''use c++ now'' = Some False \<and>
   foundKeywords (evaluatePrompt ''use c++ now'' [''c++''] []) = []"
proof -
  have "standaloneAt ''c++'' ''use c++ now'' 4"
    by code_simp
  moreover have "wordTest (escapeRegExp ''c++'') ''use c++ now'' = Some False"
    by code_simp
  ultimately show ?thesis
    by (simp add: evaluatePrompt_def foundKeywordsOf_def Let_def)
qed

lemma count_foldl:
  "foldl (\<lambda>acc x. acc + (if P x then 1 else 0)) a xs = a + length (filter P xs)"
  by (induction xs arbitrary: a) simp_all

lemma specificityWords_plain:
  "list_all (\<lambda>w. wordEdges w \<and> escapeRegExp w = w) specificityWords"
  by (simp add: specificityWords_def wordEdges_def IsWordCharacter_def code_def escapeRegExp_def
      syntaxCharacters_def backslash_def)

lemma wordTest_vocabulary:
  assumes "w \<in> set specificityWords"
  shows "wordTest w prompt = Some (wholeWordOccurs w prompt)"
proof -
  from assms specificityWords_plain have "wordEdges w" and "escapeRegExp w = w"
    by (simp_all add: list_all_iff)
  then show ?thesis
    using wordTest_wholeWord [of w prompt] by simp
qed

lemma specificityCount_occurs:
  "specificityCount prompt = length (filter (\<lambda>w. wholeWordOccurs w prompt) specificityWords)"
proof -
  have "filter (\<lambda>w. wordTest w prompt = Some True) specificityWords
        = filter (\<lambda>w. wholeWordOccurs w prompt) specificityWords"
    by (rule filter_cong) (simp_all add: wordTest_vocabulary)
  then show ?thesis
    by (simp add: specificityCount_def count_foldl)
qed

lemma foundKeywordsOf_occurs:
  assumes "list_all wordEdges keywords"
  shows "foundKeywordsOf prompt keywords = filter (\<lambda>k. wholeWordOccurs k prompt) keywords"
  unfolding foundKeywordsOf_def
  using assms by (intro filter_cong) (simp_all add: list_all_iff wordTest_wholeWord)

lemma passCount_occurs:
  assumes "list_all (\<lambda>t. list_all wordEdges (required t)) testCases"
  shows "passCount prompt testCases
         = length (filter (\<lambda>t. list_all (\<lambda>r. wholeWordOccurs r prompt) (required t)) testCases)"
proof -
  have "filter (\<lambda>t. list_all (\<lambda>r. wordTest (escapeRegExp r) prompt = Some True) (required t)) testCases
        = filter (\<lambda>t. list_all (\<lambda>r. wholeWordOccurs r prompt) (required t)) testCases"
    using assms by (intro filter_cong) (auto simp add: list_all_iff wordTest_wholeWord)
  then show ?thesis
    by (simp add: passCount_def count_foldl Let_def)
qed

text \<open>
  C5, amended. For every term that is not empty and begins and ends with a word character
  (\<^verbatim>\<open>A-Z a-z 0-9 _\<close>), the test of the evaluator holds exactly when the prompt has an
  occurrence of the term, up to letter case, with no word character before it and none
  behind it; so an occurrence inside a longer word never counts. This is the test behind
  the specificity count (all eight vocabulary terms are such terms), the found keywords
  and the passed test cases.
\<close>

theorem whole_word_matching:
  assumes "list_all wordEdges keywords"
    and "list_all (\<lambda>t. list_all wordEdges (required t)) testCases"
  shows "(wordEdges w \<longrightarrow> wordTest (escapeRegExp w) prompt = Some (wholeWordOccurs w prompt)) \<and>
         specificityCount prompt
           = length (filter (\<lambda>w. wholeWordOccurs w prompt) specificityWords) \<and>
         foundKeywords (evaluatePrompt prompt keywords testCases)
           = filter (\<lambda>k. wholeWordOccurs k prompt) keywords \<and>
         passCount prompt testCases
           = length (filter (\<lambda>t. list_all (\<lambda>r. wholeWordOccurs r prompt) (required t)) testCases)"
  using assms
  by (simp add: wordTest_wholeWord specificityCount_occurs foundKeywordsOf_occurs passCount_occurs
      evaluatePrompt_def Let_def)

theorem whole_word_matching_witness:
  "list_all wordEdges [''cat'', ''json''] \<and>
   list_all (\<lambda>t. list_all wordEdges (required t)) [\<lparr>mustInclude = Some [''cat'']\<rparr>] \<and>
   wordEdges ''cat'' \<and>
   wordTest (escapeRegExp ''cat'') ''category: JSON'' = Some False \<and>
   foundKeywords (evaluatePrompt ''category: JSON'' [''cat'', ''json''] [\<lparr>mustInclude = Some [''cat'']\<rparr>])
     = [''json''] \<and>
   passCount ''category: JSON'' [\<lparr>mustInclude = Some [''cat'']\<rparr>] = 0"
proof -
  have h1: "list_all wordEdges [''cat'', ''json'']"
    by code_simp
  have h2: "list_all (\<lambda>t. list_all wordEdges (required t)) [\<lparr>mustInclude = Some [''cat'']\<rparr>]"
    by code_simp
  have h3: "wordEdges ''cat''"
    by code_simp
  have e1: "wholeWordOccurs ''cat'' ''category: JSON'' = False"
    by code_simp
  have e2: "filter (\<lambda>k. wholeWordOccurs k ''category: JSON'') [''cat'', ''json''] = [''json'']"
    by code_simp
  have e3: "length (filter (\<lambda>t. list_all (\<lambda>r. wholeWordOccurs r ''category: JSON'') (required t))
              [\<lparr>mustInclude = Some [''cat'']\<rparr>]) = 0"
    by code_simp
  show ?thesis
    using whole_word_matching [OF h1 h2, of "''cat''" "''category: JSON''"] h1 h2 h3 e1 e2 e3
    by simp
qed

lemma Math_round_quarter: "Math_round (of_int n / 4) = (n + 2) div 4"
proof -
  have "of_int n / 4 + 1 / 2 = (of_int (n + 2) :: rat) / of_int 4"
    by (simp add: field_simps)
  then show ?thesis
    unfolding Math_round_def by (simp only: floor_divide_of_int_eq)
qed

lemma clarityOf_range: "10 \<le> clarityOf prompt \<and> clarityOf prompt \<le> 100"
  by (simp add: clarityOf_def Let_def)

lemma specificityOf_range: "20 \<le> specificityOf prompt \<and> specificityOf prompt \<le> 100"
  by (simp add: specificityOf_def)

lemma keywordCoverageOf_range:
  "0 \<le> keywordCoverageOf prompt keywords \<and> keywordCoverageOf prompt keywords \<le> 100"
  using percentage_range [of "length (foundKeywordsOf prompt keywords)" "length keywords"]
  by (simp add: keywordCoverageOf_def foundKeywordsOf_def)

lemma passCount_le: "passCount prompt testCases \<le> length testCases"
  by (simp add: passCount_def count_foldl Let_def)

lemma testScoreOf_range:
  "0 \<le> testScoreOf prompt testCases \<and> testScoreOf prompt testCases \<le> 100"
  using percentage_range [of "passCount prompt testCases" "length testCases"] passCount_le
  by (simp add: testScoreOf_def)

text \<open>
  C1. For every prompt and all keyword and test-case lists, the five scores of the
  evaluation are integers from 0 to 100, and the overall score is the arithmetic mean of
  the four others rounded to the nearest integer, a tie going up.
\<close>

theorem scores_in_range:
  "(let e = evaluatePrompt prompt keywords testCases;
        total = clarity e + specificity e + keywordCoverage e + testScore e
    in 0 \<le> clarity e \<and> clarity e \<le> 100 \<and>
       0 \<le> specificity e \<and> specificity e \<le> 100 \<and>
       0 \<le> keywordCoverage e \<and> keywordCoverage e \<le> 100 \<and>
       0 \<le> testScore e \<and> testScore e \<le> 100 \<and>
       0 \<le> overall e \<and> overall e \<le> 100 \<and>
       overall e = Math_round (of_int total / 4) \<and>
       overall e = (total + 2) div 4)"
proof -
  define c where "c = clarityOf prompt"
  define s where "s = specificityOf prompt"
  define k where "k = keywordCoverageOf prompt keywords"
  define t where "t = testScoreOf prompt testCases"
  have c: "10 \<le> c \<and> c \<le> 100"
    unfolding c_def by (rule clarityOf_range)
  have s: "20 \<le> s \<and> s \<le> 100"
    unfolding s_def by (rule specificityOf_range)
  have k: "0 \<le> k \<and> k \<le> 100"
    unfolding k_def by (rule keywordCoverageOf_range)
  have t: "0 \<le> t \<and> t \<le> 100"
    unfolding t_def by (rule testScoreOf_range)
  have e: "evaluatePrompt prompt keywords testCases =
             \<lparr>clarity = c, specificity = s, keywordCoverage = k, testScore = t,
              overall = Math_round (of_int (c + s + k + t) / 4),
              foundKeywords = foundKeywordsOf prompt keywords\<rparr>"
    by (simp only: evaluatePrompt_def Let_def c_def s_def k_def t_def)
  have "0 \<le> c + s + k + t + 2" and "c + s + k + t + 2 \<le> 402"
    using c s k t by simp_all
  then have "0 \<le> (c + s + k + t + 2) div 4" and "(c + s + k + t + 2) div 4 \<le> 402 div 4"
    by (simp_all add: zdiv_mono1)
  then have "0 \<le> (c + s + k + t + 2) div 4 \<and> (c + s + k + t + 2) div 4 \<le> 100"
    by simp
  then show ?thesis
    using c s k t unfolding e Let_def Math_round_quarter by simp
qed

theorem scores_in_range_witness:
  "clarity (evaluatePrompt ''Please provide output in exact JSON format, limit to 3 items.'' [''JSON''] []) = 71 \<and>
   specificity (evaluatePrompt ''Please provide output in exact JSON format, limit to 3 items.'' [''JSON''] []) = 100 \<and>
   keywordCoverage (evaluatePrompt ''Please provide output in exact JSON format, limit to 3 items.'' [''JSON''] []) = 100 \<and>
   testScore (evaluatePrompt ''Please provide output in exact JSON format, limit to 3 items.'' [''JSON''] []) = 0 \<and>
   overall (evaluatePrompt ''Please provide output in exact JSON format, limit to 3 items.'' [''JSON''] []) = 68"
proof -
  let ?p = "''Please provide output in exact JSON format, limit to 3 items.''"
  have c: "clarityOf ?p = 71" by code_simp
  have s: "specificityOf ?p = 100" by code_simp
  have k: "keywordCoverageOf ?p [''JSON''] = 100" by code_simp
  have t: "testScoreOf ?p [] = 0" by (simp add: testScoreOf_def)
  have sub: "clarity (evaluatePrompt ?p [''JSON''] []) = 71 \<and>
             specificity (evaluatePrompt ?p [''JSON''] []) = 100 \<and>
             keywordCoverage (evaluatePrompt ?p [''JSON''] []) = 100 \<and>
             testScore (evaluatePrompt ?p [''JSON''] []) = 0"
    using c s k t by (simp add: evaluatePrompt_def Let_def)
  have "overall (evaluatePrompt ?p [''JSON''] []) = 68"
    using scores_in_range [of ?p "[''JSON'']" "[]"] sub by (simp add: Let_def)
  with sub show ?thesis by simp
qed

lemma concat_splitWords: "concat (splitWords s) = s"
  by (induction s rule: splitWords.induct) (simp_all add: splitWords.simps)

text \<open>
  C6. For every prompt, the paraphrase is made in these steps: every word of the prompt
  that is \<^verbatim>\<open>please\<close> up to letter case is removed, the white space at both ends is
  stripped, every word that is \<^verbatim>\<open>Create\<close> up to letter case becomes \<^verbatim>\<open>Generate\<close> and
  every word that is \<^verbatim>\<open>Describe\<close> becomes \<^verbatim>\<open>Summarize\<close>; the result is cut to its
  first 110 characters followed by three dots exactly when it has more than 120
  characters. A word is a maximal run of word characters.
\<close>

theorem paraphrase_steps:
  "(let q = replaceWord ''Describe'' ''Summarize''
              (replaceWord ''Create'' ''Generate'' (trim (replaceWord ''please'' [] prompt)))
    in paraphrasePrompt prompt = (if 120 < length q then take 110 q @ ''...'' else q)) \<and>
   length (paraphrasePrompt prompt) \<le> 120"
  using isWord_words
  by (simp add: paraphrasePrompt_def replace_replaceWord Let_def)

theorem paraphrase_steps_witness:
  "paraphrasePrompt ''Please Create a summary of the quarterly report, and please Describe the three main risks that the team identified during the review meeting''
     = ''Generate a summary of the quarterly report, and  Summarize the three main risks that the team identified durin...'' \<and>
   paraphrasePrompt ''Please describe, recreate'' = ''Summarize, recreate''"
proof -
  let ?p = "''Please Create a summary of the quarterly report, and please Describe the three main risks that the team identified during the review meeting''"
  have q: "replaceWord ''Describe'' ''Summarize''
             (replaceWord ''Create'' ''Generate'' (trim (replaceWord ''please'' [] ?p)))
           = ''Generate a summary of the quarterly report, and  Summarize the three main risks that the team identified during the review meeting''"
    by code_simp
  have r: "replaceWord ''Describe'' ''Summarize''
             (replaceWord ''Create'' ''Generate'' (trim (replaceWord ''please'' [] ''Please describe, recreate'')))
           = ''Summarize, recreate''"
    by code_simp
  show ?thesis
    using paraphrase_steps [of ?p] paraphrase_steps [of "''Please describe, recreate''"]
    unfolding q r Let_def by simp
qed

section \<open>Properties of the transformers and of the endpoints\<close>

text \<open>
  C8. For every prompt, the Few-Shot transformer with an empty or absent Examples sequence
  returns the prompt unchanged, and the Keyword-Injection transformer with an empty or
  absent Keywords sequence returns the prompt unchanged.
\<close>

theorem identity_on_empty:
  "addFewShot prompt None = prompt \<and> addFewShot prompt (Some []) = prompt \<and>
   injectKeywords prompt None = prompt \<and> injectKeywords prompt (Some []) = prompt"
  by (simp add: addFewShot_def injectKeywords_def)

text \<open>
  C9. The Tighten transformer is not the identity on an empty or absent Constraints
  sequence: for every prompt it returns the fixed text
  \<^verbatim>\<open>Instruction: Be concise and precise.\<close>, a line break and \<^verbatim>\<open>User: \<close>, followed by
  the prompt.
\<close>

theorem tighten_without_constraints:
  "tightenInstructions prompt None
     = ''Instruction: Be concise and precise.'' @ [newline] @ ''User: '' @ prompt \<and>
   tightenInstructions prompt (Some [])
     = ''Instruction: Be concise and precise.'' @ [newline] @ ''User: '' @ prompt \<and>
   tightenInstructions prompt None \<noteq> prompt \<and>
   tightenInstructions prompt (Some []) \<noteq> prompt"
proof -
  have "length (tightenInstructions prompt None) \<noteq> length prompt"
    by (simp add: tightenInstructions_def)
  moreover have "length (tightenInstructions prompt (Some [])) \<noteq> length prompt"
    by (simp add: tightenInstructions_def)
  ultimately show ?thesis
    by (auto simp add: tightenInstructions_def)
qed

text \<open>
  C3. generateVariations fails with the client error \<^verbatim>\<open>basePrompt required\<close> whenever
  basePrompt is absent or the empty string, whatever the other fields are: the result is
  the error alone, without any Variant.
\<close>

theorem generateVariations_missing_basePrompt:
  "generateVariations uuidv4 None keywords examples constraints
     = Inl (BadRequest ''basePrompt required'') \<and>
   generateVariations uuidv4 (Some []) keywords examples constraints
     = Inl (BadRequest ''basePrompt required'')"
  by (simp add: generateVariations_def)

text \<open>
  C2. For every non-empty basePrompt and all keyword, example and constraint lists,
  generateVariations returns exactly five Variants, with the type tags system-role:expert,
  few-shot, tight-constraints, paraphrase, keyword-injection in this order; the prompt of
  each is its transformer applied to the base prompt and the matching extra input, the
  evaluation of each is evaluatePrompt on that prompt with the caller's keywords and no
  test cases, and the identifiers are the results of the five calls of the generator.
\<close>

theorem generateVariations_five:
  assumes "basePrompt \<noteq> []"
  shows "\<exists>vs. generateVariations uuidv4 (Some basePrompt) keywords examples constraints
               = Inr (basePrompt, vs) \<and>
          length vs = 5 \<and>
          map type_s vs = [''system-role:expert'', ''few-shot'', ''tight-constraints'',
                           ''paraphrase'', ''keyword-injection''] \<and>
          map prompt_s vs =
            [addSystemRole basePrompt ''You are an expert assistant with deep domain knowledge.'',
             addFewShot basePrompt (Some (withDefault examples)),
             tightenInstructions basePrompt (Some (withDefault constraints)),
             paraphrasePrompt basePrompt,
             injectKeywords basePrompt (Some (withDefault keywords))] \<and>
          map evaluation_s vs
            = map (\<lambda>p. evaluatePrompt p (withDefault keywords) []) (map prompt_s vs) \<and>
          map id_s vs = map uuidv4 [0, 1, 2, 3, 4]"
  using assms by (simp add: generateVariations_def buildVariations_def Let_def)

theorem generateVariations_five_witness:
  "''Tell me about cats'' \<noteq> [] \<and>
   (\<exists>vs. generateVariations decimal (Some ''Tell me about cats'') None None None
            = Inr (''Tell me about cats'', vs) \<and>
         map type_s vs = [''system-role:expert'', ''few-shot'', ''tight-constraints'',
                          ''paraphrase'', ''keyword-injection''])"
  using generateVariations_five [of "''Tell me about cats''" decimal None None None]
  by auto

lemma Math_round_40: "Math_round (100 - \<bar>120 - 0\<bar> * (1 / 2)) = 40"
proof -
  have "\<lfloor>(81::rat) / 2\<rfloor> = 40"
    by (simp add: floor_eq_iff)
  then show ?thesis
    by (simp add: Math_round_def)
qed

lemma clarityOf_empty: "clarityOf [] = 40"
  using Math_round_40 by (simp add: clarityOf_def)

text \<open>
  C4, as stated: the public evaluate operation accepts the empty prompt and only an absent
  prompt yields the missing-prompt error. The endpoint answers the empty prompt with the
  error.
\<close>

theorem evaluate_empty_prompt_rejected:
  "evaluate (Some []) None None = Inl (BadRequest ''prompt required'')"
  by (simp add: evaluate_def)

text \<open>
  C4, amended. evaluatePrompt itself accepts the empty prompt and computes the clarity
  against length 0, which gives 40. The public evaluate operation reports the
  missing-prompt error for an absent prompt and for the empty prompt alike, and returns
  the evaluation of every non-empty prompt.
\<close>

theorem evaluate_prompt_guard:
  "clarity (evaluatePrompt [] keywords testCases) = 40 \<and>
   clarity (evaluatePrompt [] keywords testCases)
     = max 10 (min 100 (Math_round (100 - \<bar>120 - 0\<bar> * (1 / 2)))) \<and>
   evaluate None ks ts = Inl (BadRequest ''prompt required'') \<and>
   evaluate (Some []) ks ts = Inl (BadRequest ''prompt required'') \<and>
   (p \<noteq> [] \<longrightarrow>
      evaluate (Some p) ks ts = Inr (p, evaluatePrompt p (withDefault ks) (withDefault ts)))"
  using Math_round_40
  by (simp add: evaluate_def evaluatePrompt_def clarityOf_empty Let_def)

theorem evaluate_prompt_guard_witness:
  "''x'' \<noteq> [] \<and> evaluate (Some ''x'') None None = Inr (''x'', evaluatePrompt ''x'' [] [])"
  using evaluate_prompt_guard [of "[]" "[]" None None "''x''"]
  by (simp add: withDefault_def)

end
